theory Spec2Isabelle
  imports Complex_Main
begin

section \<open>JavaScript values\<close>

text \<open>
  The instrument catalog is whatever \<^verbatim>\<open>JSON.parse\<close> returns, so the model works on
  JavaScript values rather than on a typed record. A number is an IEEE double; the
  program never computes with the numbers of the catalog, it only compares them, so a
  finite double is represented by the rational it denotes (\<open>-0\<close> and \<open>0\<close> are one
  value, as they are for \<^verbatim>\<open>===\<close> and \<^verbatim>\<open><\<close>). A JavaScript string is a
  sequence of UTF-16 code units; it is represented by the bytes that encode its code
  units one by one, as UTF-8 encodes a code point (one byte for an ASCII character, two
  or three for any other code unit). An ASCII text is the list of its characters,
  different texts have different representations, and the lexicographic order of the
  bytes is the lexicographic order of the code units.
\<close>

datatype jsnum = NaN | NegInf | Fin rat | PosInf

datatype jsval =
    JUndefined
  | JNull
  | JBool bool
  | JNum jsnum
  | JStr string
  | JArr "jsval list"
  | JObj "(string \<times> jsval) list"

datatype js_error = TypeError | SyntaxError | AxiosError | StreamError | ZlibError

text \<open>
  Library functions of the host that the repository calls and does not define:
  \<^verbatim>\<open>JSON.parse\<close>, the conversions of a string to a number and of an object to a string
  that \<^verbatim>\<open><\<close> applies to operands of different types, \<^verbatim>\<open>parseFloat\<close>, the
  floating-point sum, and the Unicode case mapping of \<^verbatim>\<open>toUpperCase\<close> on a text outside
  ASCII.
\<close>

record env =
  JSON_parse :: "string \<Rightarrow> js_error + jsval"
  StringToNumber :: "string \<Rightarrow> jsnum"
  ObjectToString :: "jsval \<Rightarrow> string"
  parseFloat :: "jsval \<Rightarrow> jsnum"
  num_add :: "jsnum \<Rightarrow> jsnum \<Rightarrow> jsnum"
  UnicodeUpperCase :: "string \<Rightarrow> string"

subsection \<open>Numbers\<close>

fun num_eq :: "jsnum \<Rightarrow> jsnum \<Rightarrow> bool" where
  "num_eq NaN _ = False"
| "num_eq _ NaN = False"
| "num_eq a b = (a = b)"

fun num_lt :: "jsnum \<Rightarrow> jsnum \<Rightarrow> bool" where
  "num_lt NaN _ = False"
| "num_lt _ NaN = False"
| "num_lt NegInf b = (b \<noteq> NegInf)"
| "num_lt (Fin x) (Fin y) = (x < y)"
| "num_lt (Fin x) PosInf = True"
| "num_lt (Fin x) NegInf = False"
| "num_lt PosInf _ = False"

subsection \<open>Strings\<close>

text \<open>
  \<^verbatim>\<open>String.prototype.toUpperCase\<close>: on an ASCII text the letters a-z go to A-Z and
  every other character stays; on any other text the result is what the Unicode case
  mapping of the host gives (it may change the length, and may map a letter outside
  ASCII to an ASCII one).
\<close>

definition ascii :: "string \<Rightarrow> bool" where
  "ascii s = list_all (\<lambda>c. (of_char c :: nat) < 128) s"

definition upper_char :: "char \<Rightarrow> char" where
  "upper_char c =
     (let n = (of_char c :: nat) in if 97 \<le> n \<and> n \<le> 122 then char_of (n - 32) else c)"

definition toUpperCase :: "env \<Rightarrow> string \<Rightarrow> string" where
  "toUpperCase E s = (if ascii s then map upper_char s else UnicodeUpperCase E s)"

text \<open>
  \<^verbatim>\<open>s.length\<close>, the number of code units: the bytes that start the encoding of one
  (every byte but the continuation bytes 128-191).
\<close>

definition code_units :: "string \<Rightarrow> nat" where
  "code_units s =
     length (filter (\<lambda>c. (of_char c :: nat) < 128 \<or> 192 \<le> (of_char c :: nat)) s)"

text \<open>
  \<^verbatim>\<open>a < b\<close> on two strings: lexicographic on the code units, a proper prefix first;
  on the representation, lexicographic on the bytes.
\<close>

fun str_lt :: "string \<Rightarrow> string \<Rightarrow> bool" where
  "str_lt _ [] = False"
| "str_lt [] (d # ds) = True"
| "str_lt (c # cs) (d # ds) =
     ((of_char c :: nat) < of_char d \<or> (c = d \<and> str_lt cs ds))"

subsection \<open>Operators\<close>

text \<open>Truthiness (\<^verbatim>\<open>!x\<close>, \<^verbatim>\<open>x || y\<close>, \<^verbatim>\<open>if (x)\<close>).\<close>

fun truthy :: "jsval \<Rightarrow> bool" where
  "truthy JUndefined = False"
| "truthy JNull = False"
| "truthy (JBool b) = b"
| "truthy (JNum n) = (n \<noteq> NaN \<and> n \<noteq> Fin 0)"
| "truthy (JStr s) = (s \<noteq> [])"
| "truthy (JArr _) = True"
| "truthy (JObj _) = True"

text \<open>
  Property read \<^verbatim>\<open>v.k\<close>, for the keys the program reads (\<open>asset_symbol\<close>,
  \<open>strike_price\<close>, \<open>instrument_type\<close>, \<open>expiry\<close>, \<open>length\<close>, \<open>data\<close>, \<open>pnl\<close>): none of
  them is an array index or a method of a prototype. Reading a property of \<open>null\<close> or
  \<open>undefined\<close> throws; on a boolean or a number the property is absent.
\<close>

definition own_prop :: "(string \<times> jsval) list \<Rightarrow> string \<Rightarrow> jsval" where
  "own_prop kvs k = (case map_of kvs k of None \<Rightarrow> JUndefined | Some v \<Rightarrow> v)"

fun get_prop :: "jsval \<Rightarrow> string \<Rightarrow> js_error + jsval" where
  "get_prop JUndefined k = Inl TypeError"
| "get_prop JNull k = Inl TypeError"
| "get_prop (JObj kvs) k = Inr (own_prop kvs k)"
| "get_prop (JArr xs) k =
     Inr (if k = ''length'' then JNum (Fin (of_nat (length xs))) else JUndefined)"
| "get_prop (JStr s) k =
     Inr (if k = ''length'' then JNum (Fin (of_nat (code_units s))) else JUndefined)"
| "get_prop (JBool b) k = Inr JUndefined"
| "get_prop (JNum n) k = Inr JUndefined"

text \<open>
  \<^verbatim>\<open>v?.toUpperCase()\<close>: \<open>undefined\<close> when \<open>v\<close> is \<open>undefined\<close> or \<open>null\<close>, the upper-cased
  string when \<open>v\<close> is a string; any other value has no callable \<open>toUpperCase\<close>.
\<close>

fun opt_toUpperCase :: "env \<Rightarrow> jsval \<Rightarrow> js_error + jsval" where
  "opt_toUpperCase E JUndefined = Inr JUndefined"
| "opt_toUpperCase E JNull = Inr JUndefined"
| "opt_toUpperCase E (JStr s) = Inr (JStr (toUpperCase E s))"
| "opt_toUpperCase E _ = Inl TypeError"

text \<open>
  \<^verbatim>\<open>v === w\<close> where \<open>w\<close> is a primitive (in this program the right operand is always a
  string or a number handed in by the caller): same type and same value.
\<close>

fun strict_eq :: "jsval \<Rightarrow> jsval \<Rightarrow> bool" where
  "strict_eq JUndefined JUndefined = True"
| "strict_eq JNull JNull = True"
| "strict_eq (JBool a) (JBool b) = (a = b)"
| "strict_eq (JNum a) (JNum b) = num_eq a b"
| "strict_eq (JStr a) (JStr b) = (a = b)"
| "strict_eq _ _ = False"

text \<open>
  \<^verbatim>\<open>a < b\<close>: objects and arrays are first turned into strings; two strings compare as
  strings, every other pair as numbers.
\<close>

fun ToPrimitive :: "env \<Rightarrow> jsval \<Rightarrow> jsval" where
  "ToPrimitive E (JArr xs) = JStr (ObjectToString E (JArr xs))"
| "ToPrimitive E (JObj kvs) = JStr (ObjectToString E (JObj kvs))"
| "ToPrimitive E v = v"

fun ToNumber :: "env \<Rightarrow> jsval \<Rightarrow> jsnum" where
  "ToNumber E JUndefined = NaN"
| "ToNumber E JNull = Fin 0"
| "ToNumber E (JBool b) = Fin (if b then 1 else 0)"
| "ToNumber E (JNum n) = n"
| "ToNumber E (JStr s) = StringToNumber E s"
| "ToNumber E v = ToNumber E (ToPrimitive E v)"

definition js_lt :: "env \<Rightarrow> jsval \<Rightarrow> jsval \<Rightarrow> bool" where
  "js_lt E a b =
     (case (ToPrimitive E a, ToPrimitive E b) of
        (JStr x, JStr y) \<Rightarrow> str_lt x y
      | (x, y) \<Rightarrow> num_lt (ToNumber E x) (ToNumber E y))"

text \<open>\<^verbatim>\<open>Array.prototype.filter\<close> with a callback that may throw.\<close>

fun filter_js :: "('a \<Rightarrow> js_error + bool) \<Rightarrow> 'a list \<Rightarrow> js_error + 'a list" where
  "filter_js p [] = Inr []"
| "filter_js p (x # xs) =
     (case p x of
        Inl e \<Rightarrow> Inl e
      | Inr b \<Rightarrow>
          (case filter_js p xs of
             Inl e \<Rightarrow> Inl e
           | Inr ys \<Rightarrow> Inr (if b then x # ys else ys)))"

text \<open>
  \<^verbatim>\<open>Array.prototype.reduce\<close>: from an initial value, and without one (the first
  element is the initial value then, and the empty array throws).
\<close>

fun reduce_from :: "('b \<Rightarrow> 'a \<Rightarrow> js_error + 'b) \<Rightarrow> 'b \<Rightarrow> 'a list \<Rightarrow> js_error + 'b" where
  "reduce_from f acc [] = Inr acc"
| "reduce_from f acc (x # xs) =
     (case f acc x of Inl e \<Rightarrow> Inl e | Inr acc' \<Rightarrow> reduce_from f acc' xs)"

fun reduce_js :: "('a \<Rightarrow> 'a \<Rightarrow> js_error + 'a) \<Rightarrow> 'a list \<Rightarrow> js_error + 'a" where
  "reduce_js f [] = Inl TypeError"
| "reduce_js f (x # xs) = reduce_from f x xs"

section \<open>The instrument cache (upstoxInstrument.util.js)\<close>

text \<open>One constructor per \<^verbatim>\<open>console.log\<close> / \<^verbatim>\<open>console.error\<close> call of the repository.\<close>

datatype log_entry =
    LogStartDownload
  | LogPopulated jsval
  | ErrParsing js_error
  | ErrDecompress js_error
  | ErrDuringDownload js_error
  | ErrDownloadFailed js_error
  | ErrNotPopulated
  | LogUsingCache
  | LogCacheEmpty
  | LogExampleLookup
  | LogFound jsval
  | LogNotFound
  | LogRule
  | ErrCorrupted
  | ErrUnexpected js_error
  | LogValue jsval
  | LogCron
  | ErrDailyFailed js_error
  | LogInitialized
  | LogScheduled
  | ErrFetchingPositions js_error

text \<open>The module's state: the global \<^verbatim>\<open>instrumentCache\<close> and what was printed.\<close>

record state =
  instrumentCache :: jsval
  console :: "log_entry list"

definition print :: "log_entry \<Rightarrow> 'a state_scheme \<Rightarrow> 'a state_scheme" where
  "print l s = s\<lparr>console := console s @ [l]\<rparr>"

subsection \<open>getUpstoxOption\<close>

text \<open>The callback of \<^verbatim>\<open>instrumentCache.filter\<close> (lines 91-94); \<^verbatim>\<open>&&\<close> short-circuits.\<close>

definition matches ::
  "env \<Rightarrow> string \<Rightarrow> jsnum \<Rightarrow> string \<Rightarrow> jsval \<Rightarrow> js_error + bool" where
  "matches E assetSymbol strikePrice optionType instrument =
     (case get_prop instrument ''asset_symbol'' of
        Inl e \<Rightarrow> Inl e
      | Inr symb \<Rightarrow>
     (case opt_toUpperCase E symb of
        Inl e \<Rightarrow> Inl e
      | Inr usym \<Rightarrow>
     if \<not> strict_eq usym (JStr (toUpperCase E assetSymbol)) then Inr False
     else
     (case get_prop instrument ''strike_price'' of
        Inl e \<Rightarrow> Inl e
      | Inr sp \<Rightarrow>
     if \<not> strict_eq sp (JNum strikePrice) then Inr False
     else
     (case get_prop instrument ''instrument_type'' of
        Inl e \<Rightarrow> Inl e
      | Inr ty \<Rightarrow>
     (case opt_toUpperCase E ty of
        Inl e \<Rightarrow> Inl e
      | Inr uty \<Rightarrow> Inr (strict_eq uty (JStr (toUpperCase E optionType))))))))"

text \<open>The callback of \<^verbatim>\<open>matchingInstruments.reduce\<close> (lines 102-104).\<close>

definition earlier :: "env \<Rightarrow> jsval \<Rightarrow> jsval \<Rightarrow> js_error + jsval" where
  "earlier E earliest current =
     (case get_prop current ''expiry'' of
        Inl e \<Rightarrow> Inl e
      | Inr ce \<Rightarrow>
     (case get_prop earliest ''expiry'' of
        Inl e \<Rightarrow> Inl e
      | Inr ee \<Rightarrow> Inr (if js_lt E ce ee then current else earliest)))"

text \<open>
  The search on a populated cache (lines 90-106). A truthy cache that is not an array
  has no \<open>filter\<close> method, and the call throws.
\<close>

definition search :: "env \<Rightarrow> jsval \<Rightarrow> string \<Rightarrow> jsnum \<Rightarrow> string \<Rightarrow> js_error + jsval" where
  "search E cache assetSymbol strikePrice optionType =
     (case cache of
        JArr instruments \<Rightarrow>
          (case filter_js (matches E assetSymbol strikePrice optionType) instruments of
             Inl e \<Rightarrow> Inl e
           | Inr matchingInstruments \<Rightarrow>
               if length matchingInstruments = 0 then Inr JNull
               else reduce_js (earlier E) matchingInstruments)
      | _ \<Rightarrow> Inl TypeError)"

text \<open>
  \<^verbatim>\<open>getUpstoxOption(assetSymbol, strikePrice, optionType)\<close>: the value returned (or the
  exception thrown), and the state after the call. The arguments have the types the
  JSDoc gives them: two strings and a number.
\<close>

definition getUpstoxOption ::
  "env \<Rightarrow> string \<Rightarrow> jsnum \<Rightarrow> string \<Rightarrow> 'a state_scheme \<Rightarrow> (js_error + jsval) \<times> 'a state_scheme" where
  "getUpstoxOption E assetSymbol strikePrice optionType s =
     (if \<not> truthy (instrumentCache s) then (Inr JNull, print ErrNotPopulated s)
      else (search E (instrumentCache s) assetSymbol strikePrice optionType, s))"

subsection \<open>downloadAndPopulateCache\<close>

text \<open>
  What the network and the gunzip stream deliver to one call of
  \<^verbatim>\<open>downloadAndPopulateCache\<close>: the request is rejected (line 65), the response stream
  emits an error (line 60), the gunzip stream emits an error (line 55), or the gunzip
  stream ends after the chunks it has emitted (line 39).
\<close>

datatype download =
    RequestFailed js_error
  | SourceError js_error
  | GunzipError js_error
  | Ended "string list"

text \<open>Lines 22-27: the start of a cycle, up to the request being sent.\<close>

definition download_start :: "'a state_scheme \<Rightarrow> 'a state_scheme" where
  "download_start s = print LogStartDownload s"

text \<open>
  Lines 39-68: the handler that runs when the cycle settles; the first component is
  how the returned promise settles (\<open>Inl\<close>: rejected). The host's \<^verbatim>\<open>JSON.parse\<close> is
  given the decompressed bytes: decoding them as UTF-8 is part of it.
\<close>

definition download_settle ::
  "env \<Rightarrow> download \<Rightarrow> 'a state_scheme \<Rightarrow> (js_error + unit) \<times> 'a state_scheme" where
  "download_settle E d s =
     (case d of
        RequestFailed err \<Rightarrow> (Inl err, print (ErrDownloadFailed err) s)
      | SourceError err \<Rightarrow> (Inl err, print (ErrDuringDownload err) s)
      | GunzipError err \<Rightarrow> (Inl err, print (ErrDecompress err) s)
      | Ended chunks \<Rightarrow>
          (case JSON_parse E (concat chunks) of
             Inl err \<Rightarrow> (Inl err, print (ErrParsing err) s)
           | Inr v \<Rightarrow>
               (let s1 = s\<lparr>instrumentCache := v\<rparr> in
                case get_prop v ''length'' of
                  Inl err \<Rightarrow> (Inl err, print (ErrParsing err) s1)
                | Inr n \<Rightarrow> (Inr (), print (LogPopulated n) s1))))"

definition downloadAndPopulateCache ::
  "env \<Rightarrow> download \<Rightarrow> 'a state_scheme \<Rightarrow> (js_error + unit) \<times> 'a state_scheme" where
  "downloadAndPopulateCache E d s = download_settle E d (download_start s)"

subsection \<open>main and the script\<close>

text \<open>The \<^verbatim>\<open>catch\<close> block of \<^verbatim>\<open>main\<close> (lines 133-145).\<close>

definition main_catch :: "js_error \<Rightarrow> 'a state_scheme \<Rightarrow> 'a state_scheme" where
  "main_catch err s =
     (if err = SyntaxError then print ErrCorrupted s else print (ErrUnexpected err) s)"

text \<open>
  \<^verbatim>\<open>main()\<close>, with \<open>d\<close> what the download delivers if \<open>main\<close> starts one; the first
  component is how the promise of \<open>main\<close> settles.
\<close>

definition main ::
  "env \<Rightarrow> download \<Rightarrow> 'a state_scheme \<Rightarrow> (js_error + unit) \<times> 'a state_scheme" where
  "main E d s =
     (case (if truthy (instrumentCache s) then (Inr (), print LogUsingCache s)
            else downloadAndPopulateCache E d (print LogCacheEmpty s)) of
        (Inl err, s1) \<Rightarrow> (Inr (), main_catch err s1)
      | (Inr u, s1) \<Rightarrow>
          (case getUpstoxOption E ''NIFTY'' (Fin 23300) ''PE'' (print LogExampleLookup s1) of
             (Inl err, s2) \<Rightarrow> (Inr (), main_catch err s2)
           | (Inr niftyOption, s2) \<Rightarrow>
               (Inr (),
                print LogRule
                  (if truthy niftyOption then print (LogFound niftyOption) s2
                   else print LogNotFound s2))))"

text \<open>
  The module's top level (lines 13 and 150-170): \<open>Inl\<close> is an exception that nothing
  catches, which ends the process; \<open>Inr\<close> is the state in which the script has
  scheduled the cron job and goes on to serve lookups.
\<close>

definition initial :: state where
  "initial = \<lparr>instrumentCache = JNull, console = []\<rparr>"

definition script :: "env \<Rightarrow> download \<Rightarrow> js_error + state" where
  "script E d =
     (case main E d initial of
        (Inl err, s1) \<Rightarrow> Inl err
      | (Inr u, s1) \<Rightarrow>
          (case getUpstoxOption E ''NIFTY'' (Fin 24000) ''CE'' s1 of
             (Inl err, s2) \<Rightarrow> Inl err
           | (Inr v, s2) \<Rightarrow>
               Inr (print LogScheduled (print LogInitialized (print (LogValue v) s2)))))"

subsection \<open>The cron job\<close>

text \<open>
  The process after the script: the module's state and the number of download cycles
  whose promise has not settled yet (the source keeps no such counter; it is the
  number of requests the callback below has sent and that are still pending).
\<close>

record process = state +
  inflight :: nat

text \<open>Lines 154-159: the callback of \<^verbatim>\<open>cron.schedule\<close>, up to the request being sent.\<close>

definition cronCallback :: "process \<Rightarrow> process" where
  "cronCallback p = (download_start (print LogCron p))\<lparr>inflight := Suc (inflight p)\<rparr>"

text \<open>
  Lines 159-164: a cycle started by the callback settles, and \<^verbatim>\<open>.catch\<close> handles a
  rejection; the first component is how the promise of the whole chain settles. Only a
  cycle in flight can settle, so the count is positive where this handler runs.
\<close>

definition cronSettled :: "env \<Rightarrow> download \<Rightarrow> process \<Rightarrow> (js_error + unit) \<times> process" where
  "cronSettled E d p =
     (case download_settle E d p of
        (Inl err, p1) \<Rightarrow> (Inr (), (print (ErrDailyFailed err) p1)\<lparr>inflight := inflight p - 1\<rparr>)
      | (Inr u, p1) \<Rightarrow> (Inr (), p1\<lparr>inflight := inflight p - 1\<rparr>))"

section \<open>The positions request (upstox.service.js)\<close>

text \<open>
  The callback of \<^verbatim>\<open>positions.reduce\<close> (line 27):
  \<^verbatim>\<open>acc + parseFloat(pos.pnl || 0)\<close>, a floating-point sum.
\<close>

definition pnl_step :: "env \<Rightarrow> jsnum \<Rightarrow> jsval \<Rightarrow> js_error + jsnum" where
  "pnl_step E acc pos =
     (case get_prop pos ''pnl'' of
        Inl e \<Rightarrow> Inl e
      | Inr v \<Rightarrow> Inr (num_add E acc (parseFloat E (if truthy v then v else JNum (Fin 0)))))"

text \<open>
  The \<^verbatim>\<open>try\<close> block of \<^verbatim>\<open>getTodaysPnL\<close> (lines 13-31); \<open>req\<close> is how the request
  \<^verbatim>\<open>axios.get(.../portfolio/get-positions)\<close> settles.
\<close>

definition getTodaysPnL_try :: "env \<Rightarrow> js_error + jsval \<Rightarrow> js_error + jsval" where
  "getTodaysPnL_try E req =
     (case req of
        Inl err \<Rightarrow> Inl err
      | Inr response \<Rightarrow>
     (case get_prop response ''data'' of
        Inl e \<Rightarrow> Inl e
      | Inr body \<Rightarrow>
     (case (if body = JUndefined \<or> body = JNull then Inr JUndefined
            else get_prop body ''data'') of
        Inl e \<Rightarrow> Inl e
      | Inr d \<Rightarrow>
     (let positions = (if truthy d then d else JArr []) in
      case get_prop positions ''length'' of
        Inl e \<Rightarrow> Inl e
      | Inr len \<Rightarrow>
          if strict_eq len (JNum (Fin 0)) then Inr (JNum (Fin 0))
          else
            (case positions of
               JArr ps \<Rightarrow>
                 (case reduce_from (pnl_step E) (Fin 0) ps of
                    Inl e \<Rightarrow> Inl e
                  | Inr totalPnL \<Rightarrow> Inr (JNum totalPnL))
             | _ \<Rightarrow> Inl TypeError)))))"

text \<open>
  \<^verbatim>\<open>getTodaysPnL({ token })\<close>: how its promise settles, and what it prints. The
  \<^verbatim>\<open>catch\<close> block (lines 32-38) turns every exception of the \<^verbatim>\<open>try\<close> block into
  the number 0.
\<close>

definition getTodaysPnL :: "env \<Rightarrow> js_error + jsval \<Rightarrow> (js_error + jsval) \<times> log_entry list" where
  "getTodaysPnL E req =
     (case getTodaysPnL_try E req of
        Inl err \<Rightarrow> (Inr (JNum (Fin 0)), [ErrFetchingPositions err])
      | Inr totalPnL \<Rightarrow> (Inr totalPnL, []))"

section \<open>The specification's notions\<close>

text \<open>
  Two strings are equal up to letter case when they have the same length and, position
  by position, the same character or the two cases of one letter.
\<close>

definition is_upper :: "char \<Rightarrow> bool" where
  "is_upper c = (65 \<le> (of_char c :: nat) \<and> (of_char c :: nat) \<le> 90)"

definition same_letter :: "char \<Rightarrow> char \<Rightarrow> bool" where
  "same_letter c d =
     (c = d \<or> (is_upper c \<and> (of_char d :: nat) = of_char c + 32)
            \<or> (is_upper d \<and> (of_char c :: nat) = of_char d + 32))"

definition equal_ignoring_case :: "string \<Rightarrow> string \<Rightarrow> bool" where
  "equal_ignoring_case s t = list_all2 same_letter s t"

text \<open>
  The lookup filter in the specification's words: the record's asset symbol equals the
  queried one up to letter case, its strike price is the queried number, and its
  instrument type equals the queried option type up to letter case.
\<close>

definition spec_matches :: "string \<Rightarrow> jsnum \<Rightarrow> string \<Rightarrow> jsval \<Rightarrow> bool" where
  "spec_matches assetSymbol strikePrice optionType r =
     (case r of
        JObj kvs \<Rightarrow>
          (case own_prop kvs ''asset_symbol'' of
             JStr s \<Rightarrow> equal_ignoring_case s assetSymbol | _ \<Rightarrow> False) \<and>
          (case own_prop kvs ''strike_price'' of
             JNum n \<Rightarrow> n = strikePrice \<and> n \<noteq> NaN | _ \<Rightarrow> False) \<and>
          (case own_prop kvs ''instrument_type'' of
             JStr s \<Rightarrow> equal_ignoring_case s optionType | _ \<Rightarrow> False)
      | _ \<Rightarrow> False)"

text \<open>A record whose asset symbol and instrument type, where strings, are ASCII texts.\<close>

definition ascii_value :: "jsval \<Rightarrow> bool" where
  "ascii_value v = (case v of JStr s \<Rightarrow> ascii s | _ \<Rightarrow> True)"

definition ascii_symbols :: "jsval \<Rightarrow> bool" where
  "ascii_symbols r =
     (case r of
        JObj kvs \<Rightarrow>
          ascii_value (own_prop kvs ''asset_symbol'') \<and>
          ascii_value (own_prop kvs ''instrument_type'')
      | _ \<Rightarrow> True)"

text \<open>The expiry of a record, and records whose expiries are comparable dates.\<close>

definition expiry_of :: "jsval \<Rightarrow> jsval" where
  "expiry_of r = (case get_prop r ''expiry'' of Inl e \<Rightarrow> JUndefined | Inr v \<Rightarrow> v)"

definition number_expiry :: "jsval \<Rightarrow> bool" where
  "number_expiry r = (case expiry_of r of JNum n \<Rightarrow> n \<noteq> NaN | _ \<Rightarrow> False)"

definition string_expiry :: "jsval \<Rightarrow> bool" where
  "string_expiry r = (case expiry_of r of JStr s \<Rightarrow> True | _ \<Rightarrow> False)"

definition ordered_expiries :: "jsval list \<Rightarrow> bool" where
  "ordered_expiries ms = (list_all number_expiry ms \<or> list_all string_expiry ms)"

text \<open>
  The failures that a refresh cycle detects before it assigns the cache: the request is
  rejected, the response stream or the gunzip stream emits an error, or \<^verbatim>\<open>JSON.parse\<close>
  throws on the decompressed text. A text that parses is not among them, whatever the
  value it parses to.
\<close>

fun detected_failure :: "env \<Rightarrow> download \<Rightarrow> bool" where
  "detected_failure E (RequestFailed err) = True"
| "detected_failure E (SourceError err) = True"
| "detected_failure E (GunzipError err) = True"
| "detected_failure E (Ended chunks) =
     (case JSON_parse E (concat chunks) of Inl err \<Rightarrow> True | Inr v \<Rightarrow> False)"

text \<open>The lines with which a failed refresh is reported.\<close>

fun failure_report :: "log_entry \<Rightarrow> bool" where
  "failure_report (ErrParsing err) = True"
| "failure_report (ErrDecompress err) = True"
| "failure_report (ErrDuringDownload err) = True"
| "failure_report (ErrDownloadFailed err) = True"
| "failure_report _ = False"

text \<open>A record of the end-to-end scenario, whatever its other fields are.\<close>

definition scenario_record :: "(string \<times> jsval) list \<Rightarrow> string \<Rightarrow> bool" where
  "scenario_record kvs expiry =
     (own_prop kvs ''asset_symbol'' = JStr ''NIFTY'' \<and>
      own_prop kvs ''strike_price'' = JNum (Fin 23300) \<and>
      own_prop kvs ''instrument_type'' = JStr ''PE'' \<and>
      own_prop kvs ''expiry'' = JStr expiry)"

text \<open>
  A record with a missing string field: its asset symbol is absent, or its asset symbol
  is a string and its instrument type is absent.
\<close>

definition absent :: "jsval \<Rightarrow> bool" where
  "absent v = (v = JUndefined \<or> v = JNull)"

definition is_string :: "jsval \<Rightarrow> bool" where
  "is_string v = (case v of JStr s \<Rightarrow> True | _ \<Rightarrow> False)"

definition missing_string_field :: "(string \<times> jsval) list \<Rightarrow> bool" where
  "missing_string_field kvs =
     (absent (own_prop kvs ''asset_symbol'') \<or>
      (is_string (own_prop kvs ''asset_symbol'') \<and> absent (own_prop kvs ''instrument_type'')))"

section \<open>A concrete host\<close>

text \<open>
  A host at which the program can be evaluated: its \<^verbatim>\<open>JSON.parse\<close> knows the
  two-record catalog of the end-to-end scenario and the texts \<^verbatim>\<open>null\<close>, \<^verbatim>\<open>{}\<close> and
  \<^verbatim>\<open>[null]\<close>, and rejects every other text.
\<close>

definition example_record :: "string \<Rightarrow> jsval" where
  "example_record expiry =
     JObj [(''asset_symbol'', JStr ''NIFTY''), (''strike_price'', JNum (Fin 23300)),
           (''instrument_type'', JStr ''PE''), (''expiry'', JStr expiry)]"

definition example_chunks :: "string list" where
  \<open>example_chunks =
     [''[{"asset_symbol":"NIFTY","strike_price":23300,"instrument_type":"PE","expiry":"2025-01-02"},'',
      ''{"asset_symbol":"NIFTY","strike_price":23300,"instrument_type":"PE","expiry":"2025-01-09"}]'']\<close>

definition example_payload :: string where
  "example_payload = concat example_chunks"

text \<open>Three options that differ in their instrument key and their expiry day.\<close>

definition option_record :: "string \<Rightarrow> rat \<Rightarrow> jsval" where
  "option_record key day =
     JObj [(''instrument_key'', JStr key), (''asset_symbol'', JStr ''NIFTY''),
           (''strike_price'', JNum (Fin 23300)), (''instrument_type'', JStr ''PE''),
           (''expiry'', JNum (Fin day))]"

definition example_host :: env where
  "example_host =
     \<lparr>JSON_parse = (\<lambda>s. if s = example_payload
                         then Inr (JArr [example_record ''2025-01-02'', example_record ''2025-01-09''])
                       else if s = ''null'' then Inr JNull
                       else if s = ''{}'' then Inr (JObj [])
                       else if s = ''[null]'' then Inr (JArr [JNull])
                       else Inl SyntaxError),
      StringToNumber = (\<lambda>s. NaN),
      ObjectToString = (\<lambda>v. ''[object Object]''),
      parseFloat = (\<lambda>v. case v of JNum n \<Rightarrow> n | _ \<Rightarrow> NaN),
      num_add = (\<lambda>a b. case (a, b) of (Fin x, Fin y) \<Rightarrow> Fin (x + y) | _ \<Rightarrow> NaN),
      UnicodeUpperCase = (\<lambda>s. s)\<rparr>"

section \<open>Properties\<close>

subsection \<open>Letter case\<close>

lemma of_char_upper_char:
  "(of_char (upper_char c) :: nat) =
     (if 97 \<le> (of_char c :: nat) \<and> (of_char c :: nat) \<le> 122 then of_char c - 32 else of_char c)"
  using nat_of_char_less_256 [of c] by (auto simp: upper_char_def Let_def)

lemma upper_shift:
  fixes m n :: nat
  shows "((if 97 \<le> m \<and> m \<le> 122 then m - 32 else m) =
          (if 97 \<le> n \<and> n \<le> 122 then n - 32 else n)) \<longleftrightarrow>
         (m = n \<or> ((65 \<le> m \<and> m \<le> 90) \<and> n = m + 32) \<or> ((65 \<le> n \<and> n \<le> 90) \<and> m = n + 32))"
  by (auto split: if_splits)

lemma upper_char_eq_iff: "upper_char c = upper_char d \<longleftrightarrow> same_letter c d"
proof -
  have "upper_char c = upper_char d \<longleftrightarrow>
          (of_char (upper_char c) :: nat) = of_char (upper_char d)"
    by simp
  also have "\<dots> \<longleftrightarrow> same_letter c d"
    unfolding of_char_upper_char same_letter_def is_upper_def upper_shift
    by simp
  finally show ?thesis .
qed

lemma map_upper_char_eq_iff:
  "map upper_char s = map upper_char t \<longleftrightarrow> equal_ignoring_case s t"
  unfolding equal_ignoring_case_def
proof (induction s arbitrary: t)
  case Nil
  then show ?case by auto
next
  case (Cons c s)
  then show ?case by (cases t) (simp_all add: upper_char_eq_iff)
qed

lemma toUpperCase_eq_iff:
  "ascii s \<Longrightarrow> ascii t \<Longrightarrow> toUpperCase E s = toUpperCase E t \<longleftrightarrow> equal_ignoring_case s t"
  by (simp add: toUpperCase_def map_upper_char_eq_iff)

subsection \<open>The lookup filter\<close>

lemma num_eq_iff: "num_eq a b \<longleftrightarrow> a = b \<and> a \<noteq> NaN"
  by (cases a; cases b) auto

lemma matches_spec:
  assumes a: "ascii a" and t: "ascii t" and r: "ascii_symbols r"
    and m: "matches E a k t r = Inr b"
  shows "b = spec_matches a k t r"
proof (cases r)
  case (JObj kvs)
  have sym: "\<And>s. own_prop kvs ''asset_symbol'' = JStr s \<Longrightarrow>
               toUpperCase E s = toUpperCase E a \<longleftrightarrow> equal_ignoring_case s a"
    using r JObj a by (simp add: ascii_symbols_def ascii_value_def toUpperCase_eq_iff)
  have ty: "\<And>s. own_prop kvs ''instrument_type'' = JStr s \<Longrightarrow>
               toUpperCase E s = toUpperCase E t \<longleftrightarrow> equal_ignoring_case s t"
    using r JObj t by (simp add: ascii_symbols_def ascii_value_def toUpperCase_eq_iff)
  show ?thesis
  proof (cases "own_prop kvs ''asset_symbol''")
    case (JStr s)
    note sy = sym [OF JStr]
    show ?thesis
    proof (cases "equal_ignoring_case s a")
      case True
      show ?thesis
      proof (cases "own_prop kvs ''strike_price''")
        case (JNum n)
        show ?thesis
        proof (cases "num_eq n k")
          case True
          then show ?thesis using m JObj JStr JNum \<open>equal_ignoring_case s a\<close> sy ty
            by (cases "own_prop kvs ''instrument_type''")
               (auto simp: matches_def spec_matches_def num_eq_iff)
        next
          case False
          then show ?thesis using m JObj JStr JNum \<open>equal_ignoring_case s a\<close> sy
            by (auto simp: matches_def spec_matches_def num_eq_iff)
        qed
      qed (use m JObj JStr True sy in \<open>auto simp: matches_def spec_matches_def\<close>)
    next
      case False
      then show ?thesis using m JObj JStr sy
        by (auto simp: matches_def spec_matches_def)
    qed
  qed (use m JObj in \<open>auto simp: matches_def spec_matches_def\<close>)
qed (use m in \<open>auto simp: matches_def spec_matches_def\<close>)

lemma filter_js_filter:
  "filter_js p xs = Inr ms \<Longrightarrow> (\<And>x b. x \<in> set xs \<Longrightarrow> p x = Inr b \<Longrightarrow> b = q x) \<Longrightarrow>
   ms = filter q xs"
proof (induction xs arbitrary: ms)
  case Nil
  then show ?case by simp
next
  case (Cons x xs)
  from Cons.prems(1) obtain b ys where px: "p x = Inr b" and ys: "filter_js p xs = Inr ys"
    and ms: "ms = (if b then x # ys else ys)"
    by (auto split: sum.splits)
  have "ys = filter q xs" using Cons.IH [OF ys] Cons.prems(2) by simp
  moreover have "b = q x" using Cons.prems(2) [of x b] px by simp
  ultimately show ?case using ms by simp
qed

text \<open>
  C4. For ASCII texts (the query's asset symbol and option type, and the asset symbols
  and instrument types of the catalog): whenever the filter of \<open>getUpstoxOption\<close> runs
  to its end, the filtered list is the catalog restricted, in catalog order, to the
  records whose asset symbol equals the queried one up to letter case, whose strike
  price is the queried number, and whose instrument type equals the queried option
  type up to letter case. In particular a record with asset symbol NIFTY and instrument
  type pe passes the filter of the query (nifty, strike, PE).
\<close>

theorem filtered_set_is_the_specified_one:
  "(ascii a \<and> ascii t \<and> list_all ascii_symbols xs \<and> filter_js (matches E a k t) xs = Inr ms \<longrightarrow>
      ms = filter (spec_matches a k t) xs) \<and>
   (own_prop kvs ''asset_symbol'' = JStr ''NIFTY'' \<and> own_prop kvs ''strike_price'' = JNum k \<and>
    own_prop kvs ''instrument_type'' = JStr ''pe'' \<and> k \<noteq> NaN \<longrightarrow>
      matches E ''nifty'' k ''PE'' (JObj kvs) = Inr True)"
proof (intro conjI impI)
  assume h: "ascii a \<and> ascii t \<and> list_all ascii_symbols xs \<and>
             filter_js (matches E a k t) xs = Inr ms"
  then have f: "filter_js (matches E a k t) xs = Inr ms" by simp
  show "ms = filter (spec_matches a k t) xs"
  proof (rule filter_js_filter [OF f])
    fix x b assume "x \<in> set xs" and mx: "matches E a k t x = Inr b"
    then have "ascii_symbols x" using h by (simp add: list_all_iff)
    then show "b = spec_matches a k t x" using h mx matches_spec by blast
  qed
next
  assume h: "own_prop kvs ''asset_symbol'' = JStr ''NIFTY'' \<and> own_prop kvs ''strike_price'' = JNum k \<and>
    own_prop kvs ''instrument_type'' = JStr ''pe'' \<and> k \<noteq> NaN"
  have asc: "ascii ''NIFTY''" "ascii ''nifty''" "ascii ''pe''" "ascii ''PE''"
    by (simp_all add: ascii_def)
  have e1: "equal_ignoring_case ''NIFTY'' ''nifty''" by code_simp
  have e2: "equal_ignoring_case ''pe'' ''PE''" by code_simp
  have u1: "toUpperCase E ''NIFTY'' = toUpperCase E ''nifty''"
    using e1 asc by (simp only: toUpperCase_eq_iff)
  have u2: "toUpperCase E ''pe'' = toUpperCase E ''PE''"
    using e2 asc by (simp only: toUpperCase_eq_iff)
  show "matches E ''nifty'' k ''PE'' (JObj kvs) = Inr True"
    using h by (simp add: matches_def u1 u2 num_eq_iff)
qed

theorem filtered_set_is_the_specified_one_witness:
  "filter_js (matches example_host ''nifty'' (Fin 23300) ''PE'')
     [JObj [(''asset_symbol'', JStr ''NIFTY''), (''strike_price'', JNum (Fin 23300)),
            (''instrument_type'', JStr ''pe'')],
      JObj [(''asset_symbol'', JStr ''NIFTY''), (''strike_price'', JNum (Fin 23350)),
            (''instrument_type'', JStr ''pe'')],
      JObj [(''asset_symbol'', JStr ''NIFTY''), (''strike_price'', JNum (Fin 23300)),
            (''instrument_type'', JStr ''ce'')]]
   = Inr [JObj [(''asset_symbol'', JStr ''NIFTY''), (''strike_price'', JNum (Fin 23300)),
                (''instrument_type'', JStr ''pe'')]] \<and>
   [JObj [(''asset_symbol'', JStr ''NIFTY''), (''strike_price'', JNum (Fin 23300)),
          (''instrument_type'', JStr ''pe'')]]
   = filter (spec_matches ''nifty'' (Fin 23300) ''PE'')
     [JObj [(''asset_symbol'', JStr ''NIFTY''), (''strike_price'', JNum (Fin 23300)),
            (''instrument_type'', JStr ''pe'')],
      JObj [(''asset_symbol'', JStr ''NIFTY''), (''strike_price'', JNum (Fin 23350)),
            (''instrument_type'', JStr ''pe'')],
      JObj [(''asset_symbol'', JStr ''NIFTY''), (''strike_price'', JNum (Fin 23300)),
            (''instrument_type'', JStr ''ce'')]] \<and>
   matches example_host ''nifty'' (Fin 23300) ''PE''
     (JObj [(''asset_symbol'', JStr ''NIFTY''), (''strike_price'', JNum (Fin 23300)),
            (''instrument_type'', JStr ''pe'')]) = Inr True"
proof -
  let ?r1 = "[(''asset_symbol'', JStr ''NIFTY''), (''strike_price'', JNum (Fin 23300)),
            (''instrument_type'', JStr ''pe'')]"
  let ?xs = "[JObj ?r1,
      JObj [(''asset_symbol'', JStr ''NIFTY''), (''strike_price'', JNum (Fin 23350)),
            (''instrument_type'', JStr ''pe'')],
      JObj [(''asset_symbol'', JStr ''NIFTY''), (''strike_price'', JNum (Fin 23300)),
            (''instrument_type'', JStr ''ce'')]]"
  have f: "filter_js (matches example_host ''nifty'' (Fin 23300) ''PE'') ?xs = Inr [JObj ?r1]"
    by code_simp
  have a: "ascii ''nifty''" "ascii ''PE''" by (simp_all add: ascii_def)
  have s: "list_all ascii_symbols ?xs" by code_simp
  have p: "own_prop ?r1 ''asset_symbol'' = JStr ''NIFTY'' \<and>
           own_prop ?r1 ''strike_price'' = JNum (Fin 23300) \<and>
           own_prop ?r1 ''instrument_type'' = JStr ''pe'' \<and> Fin 23300 \<noteq> NaN"
    by (simp add: own_prop_def)
  show ?thesis
    using f a s p
      filtered_set_is_the_specified_one
        [where a = "''nifty''" and k = "Fin 23300" and t = "''PE''" and xs = ?xs
           and ms = "[JObj ?r1]" and kvs = ?r1 and E = example_host]
    by blast
qed

subsection \<open>The lookup reads, and does not write, the cache\<close>

text \<open>
  C7. For a fixed catalog snapshot, two calls of \<open>getUpstoxOption\<close> with the same
  arguments return the same result: a call leaves the cache as it found it, the second
  of two successive calls returns what the first returned, and so does a call in any
  other state that holds the same cache (the lines printed in between do not matter).
\<close>

theorem getUpstoxOption_idempotent:
  "fst (getUpstoxOption E a k t (snd (getUpstoxOption E a k t s))) = fst (getUpstoxOption E a k t s) \<and>
   instrumentCache (snd (getUpstoxOption E a k t s)) = instrumentCache s \<and>
   (instrumentCache s' = instrumentCache s \<longrightarrow>
      fst (getUpstoxOption E a k t s') = fst (getUpstoxOption E a k t s))"
  by (simp add: getUpstoxOption_def print_def)

theorem getUpstoxOption_idempotent_witness:
  "fst (getUpstoxOption example_host ''NIFTY'' (Fin 23300) ''PE''
         (snd (getUpstoxOption example_host ''NIFTY'' (Fin 23300) ''PE''
            \<lparr>instrumentCache = JArr [example_record ''2025-01-09'', example_record ''2025-01-02''],
             console = []\<rparr>)))
   = Inr (example_record ''2025-01-02'') \<and>
   fst (getUpstoxOption example_host ''NIFTY'' (Fin 23300) ''PE''
         \<lparr>instrumentCache = JArr [example_record ''2025-01-09'', example_record ''2025-01-02''],
          console = [LogCron]\<rparr>)
   = Inr (example_record ''2025-01-02'')"
proof -
  let ?c = "JArr [example_record ''2025-01-09'', example_record ''2025-01-02'']"
  let ?s = "\<lparr>instrumentCache = ?c, console = []\<rparr>"
  let ?s' = "\<lparr>instrumentCache = ?c, console = [LogCron]\<rparr>"
  have v: "fst (getUpstoxOption example_host ''NIFTY'' (Fin 23300) ''PE'' ?s)
             = Inr (example_record ''2025-01-02'')"
    by code_simp
  have c: "instrumentCache ?s' = instrumentCache ?s" by simp
  show ?thesis
    using v c getUpstoxOption_idempotent
      [where E = example_host and a = "''NIFTY''" and k = "Fin 23300" and t = "''PE''"
         and s = ?s and s' = ?s']
    by simp
qed

subsection \<open>The earliest expiry\<close>

lemma num_lt_trans: "num_lt a b \<Longrightarrow> num_lt b c \<Longrightarrow> num_lt a c"
  by (cases a; cases b; cases c) simp_all

lemma num_lt_ntrans:
  "a \<noteq> NaN \<Longrightarrow> b \<noteq> NaN \<Longrightarrow> c \<noteq> NaN \<Longrightarrow> \<not> num_lt a b \<Longrightarrow> \<not> num_lt b c \<Longrightarrow> \<not> num_lt a c"
  by (cases a; cases b; cases c) simp_all

lemma num_lt_asym: "num_lt a b \<Longrightarrow> \<not> num_lt b a"
  by (cases a; cases b) simp_all

lemma str_lt_irrefl: "\<not> str_lt a a"
  by (induction a) simp_all

lemma str_lt_trans: "str_lt a b \<Longrightarrow> str_lt b c \<Longrightarrow> str_lt a c"
proof (induction a b arbitrary: c rule: str_lt.induct)
  case (1 a)
  then show ?case by simp
next
  case (2 d ds)
  then show ?case by (cases c) simp_all
next
  case (3 x xs d ds)
  show ?case
  proof (cases c)
    case Nil
    then show ?thesis using "3.prems" by simp
  next
    case (Cons e es)
    then show ?thesis using "3.prems" "3.IH" [of es] by auto
  qed
qed

lemma str_lt_asym: "str_lt a b \<Longrightarrow> \<not> str_lt b a"
  using str_lt_trans [of a b a] str_lt_irrefl [of a] by blast

lemma str_lt_total: "str_lt a b \<or> a = b \<or> str_lt b a"
proof (induction a b rule: str_lt.induct)
  case (1 a)
  then show ?case by (cases a) simp_all
next
  case (2 d ds)
  then show ?case by simp
next
  case (3 x xs d ds)
  have "(of_char x :: nat) < of_char d \<or> x = d \<or> (of_char d :: nat) < of_char x"
    using of_char_eq_iff [of x d, where ?'a = nat] by linarith
  then show ?case using 3 by auto
qed

lemma str_lt_ntrans:
  assumes "\<not> str_lt a b" and "\<not> str_lt b c"
  shows "\<not> str_lt a c"
proof
  assume ac: "str_lt a c"
  from assms(1) str_lt_total [of a b] have "a = b \<or> str_lt b a" by blast
  then have bc: "str_lt b c"
  proof
    assume "a = b" then show ?thesis using ac by simp
  next
    assume "str_lt b a" then show ?thesis using ac by (rule str_lt_trans)
  qed
  then show False using assms(2) by simp
qed

text \<open>
  The scan of \<^verbatim>\<open>reduce\<close> with a callback that keeps the accumulator unless the
  current element is strictly smaller: over elements that a strict weak order compares,
  it returns the first of the smallest elements.
\<close>

lemma reduce_from_first_min:
  assumes sel: "\<And>x y. x \<in> S \<Longrightarrow> y \<in> S \<Longrightarrow> f x y = Inr (if lt y x then y else x)"
    and trans: "\<And>x y z. x \<in> S \<Longrightarrow> y \<in> S \<Longrightarrow> z \<in> S \<Longrightarrow> lt x y \<Longrightarrow> lt y z \<Longrightarrow> lt x z"
    and ntrans: "\<And>x y z. x \<in> S \<Longrightarrow> y \<in> S \<Longrightarrow> z \<in> S \<Longrightarrow> \<not> lt x y \<Longrightarrow> \<not> lt y z \<Longrightarrow> \<not> lt x z"
  shows "set (acc # xs) \<subseteq> S \<Longrightarrow>
         \<exists>pre r post. acc # xs = pre @ r # post \<and> reduce_from f acc xs = Inr r \<and>
           (\<forall>m\<in>set pre. lt r m) \<and> (\<forall>m\<in>set post. \<not> lt m r)"
proof (induction xs arbitrary: acc)
  case Nil
  show ?case
    by (rule exI [of _ "[]"], rule exI [of _ acc], rule exI [of _ "[]"]) simp
next
  case (Cons x xs)
  have accS: "acc \<in> S" and xS: "x \<in> S" and xsS: "set xs \<subseteq> S"
    using Cons.prems by simp_all
  show ?case
  proof (cases "lt x acc")
    case True
    then have step: "reduce_from f acc (x # xs) = reduce_from f x xs"
      using sel [OF accS xS] by simp
    have "set (x # xs) \<subseteq> S" using xS xsS by simp
    from Cons.IH [OF this] obtain pre r post where
      dec: "x # xs = pre @ r # post" and res: "reduce_from f x xs = Inr r"
      and pre: "\<forall>m\<in>set pre. lt r m" and post: "\<forall>m\<in>set post. \<not> lt m r"
      by blast
    have res': "reduce_from f acc (x # xs) = Inr r" using step res by simp
    have "r \<in> set (x # xs)" unfolding dec by simp
    then have rS: "r \<in> S" using xS xsS by auto
    have "lt r acc"
    proof (cases pre)
      case Nil
      then show ?thesis using dec True by simp
    next
      case (Cons p ps)
      then have "p = x" using dec by simp
      then have "lt r x" using pre Cons by simp
      then show ?thesis using trans [OF rS xS accS] True by simp
    qed
    then have pre': "\<forall>m\<in>set (acc # pre). lt r m" using pre by simp
    have dec': "acc # x # xs = (acc # pre) @ r # post" using dec by simp
    show ?thesis
      by (rule exI [of _ "acc # pre"], rule exI [of _ r], rule exI [of _ post])
         (intro conjI dec' res' pre' post)
  next
    case False
    then have step: "reduce_from f acc (x # xs) = reduce_from f acc xs"
      using sel [OF accS xS] by simp
    have "set (acc # xs) \<subseteq> S" using accS xsS by simp
    from Cons.IH [OF this] obtain pre r post where
      dec: "acc # xs = pre @ r # post" and res: "reduce_from f acc xs = Inr r"
      and pre: "\<forall>m\<in>set pre. lt r m" and post: "\<forall>m\<in>set post. \<not> lt m r"
      by blast
    have res': "reduce_from f acc (x # xs) = Inr r" using step res by simp
    have "r \<in> set (acc # xs)" unfolding dec by simp
    then have rS: "r \<in> S" using accS xsS by auto
    show ?thesis
    proof (cases pre)
      case Nil
      then have racc: "r = acc" and xsp: "xs = post" using dec by simp_all
      have dec': "acc # x # xs = [] @ r # (x # post)" using racc xsp by simp
      have post': "\<forall>m\<in>set (x # post). \<not> lt m r" using post False racc by simp
      have pre': "\<forall>m\<in>set []. lt r m" by simp
      show ?thesis
        by (rule exI [of _ "[]"], rule exI [of _ r], rule exI [of _ "x # post"])
           (intro conjI dec' res' pre' post')
    next
      case (Cons p ps)
      then have pacc: "p = acc" and xs: "xs = ps @ r # post" using dec by simp_all
      then have "lt r acc" using pre Cons by simp
      then have "lt r x" using ntrans [OF rS xS accS] False by blast
      then have pre': "\<forall>m\<in>set (acc # x # ps). lt r m" using pre Cons pacc by simp
      have dec': "acc # x # xs = (acc # x # ps) @ r # post" using xs by simp
      show ?thesis
        by (rule exI [of _ "acc # x # ps"], rule exI [of _ r], rule exI [of _ post])
           (intro conjI dec' res' pre' post)
    qed
  qed
qed

lemma js_lt_num: "js_lt E (JNum a) (JNum b) = num_lt a b"
  by (simp add: js_lt_def)

lemma js_lt_str: "js_lt E (JStr a) (JStr b) = str_lt a b"
  by (simp add: js_lt_def)

lemma number_expiryD:
  "number_expiry r \<Longrightarrow>
   \<exists>n. get_prop r ''expiry'' = Inr (JNum n) \<and> expiry_of r = JNum n \<and> n \<noteq> NaN"
  by (auto simp: number_expiry_def expiry_of_def split: sum.splits jsval.splits)

lemma string_expiryD:
  "string_expiry r \<Longrightarrow> \<exists>s. get_prop r ''expiry'' = Inr (JStr s) \<and> expiry_of r = JStr s"
  by (auto simp: string_expiry_def expiry_of_def split: sum.splits jsval.splits)

lemma earlier_number:
  "number_expiry x \<Longrightarrow> number_expiry y \<Longrightarrow>
   earlier E x y = Inr (if js_lt E (expiry_of y) (expiry_of x) then y else x)"
  by (auto simp: earlier_def dest!: number_expiryD)

lemma earlier_string:
  "string_expiry x \<Longrightarrow> string_expiry y \<Longrightarrow>
   earlier E x y = Inr (if js_lt E (expiry_of y) (expiry_of x) then y else x)"
  by (auto simp: earlier_def dest!: string_expiryD)

lemma reduce_earlier_numbers:
  assumes "list_all number_expiry (m # ms)"
  shows "\<exists>pre r post. m # ms = pre @ r # post \<and> reduce_from (earlier E) m ms = Inr r \<and>
           (\<forall>x\<in>set pre. js_lt E (expiry_of r) (expiry_of x)) \<and>
           (\<forall>x\<in>set post. \<not> js_lt E (expiry_of x) (expiry_of r))"
proof (rule reduce_from_first_min [where S = "{r. number_expiry r}"
        and lt = "\<lambda>x y. js_lt E (expiry_of x) (expiry_of y)"])
  show "set (m # ms) \<subseteq> {r. number_expiry r}"
    using assms by (auto simp: list_all_iff)
next
  fix x y assume "x \<in> {r. number_expiry r}" "y \<in> {r. number_expiry r}"
  then show "earlier E x y = Inr (if js_lt E (expiry_of y) (expiry_of x) then y else x)"
    by (simp add: earlier_number)
next
  fix x y z
  assume "x \<in> {r. number_expiry r}" "y \<in> {r. number_expiry r}" "z \<in> {r. number_expiry r}"
  then obtain a b c where e: "expiry_of x = JNum a" "expiry_of y = JNum b" "expiry_of z = JNum c"
    and n: "a \<noteq> NaN" "b \<noteq> NaN" "c \<noteq> NaN"
    using number_expiryD [of x] number_expiryD [of y] number_expiryD [of z] by auto
  show "js_lt E (expiry_of x) (expiry_of y) \<Longrightarrow> js_lt E (expiry_of y) (expiry_of z) \<Longrightarrow>
        js_lt E (expiry_of x) (expiry_of z)"
    unfolding e js_lt_num by (rule num_lt_trans)
  show "\<not> js_lt E (expiry_of x) (expiry_of y) \<Longrightarrow> \<not> js_lt E (expiry_of y) (expiry_of z) \<Longrightarrow>
        \<not> js_lt E (expiry_of x) (expiry_of z)"
    unfolding e js_lt_num using n by (rule num_lt_ntrans)
qed

lemma reduce_earlier_strings:
  assumes "list_all string_expiry (m # ms)"
  shows "\<exists>pre r post. m # ms = pre @ r # post \<and> reduce_from (earlier E) m ms = Inr r \<and>
           (\<forall>x\<in>set pre. js_lt E (expiry_of r) (expiry_of x)) \<and>
           (\<forall>x\<in>set post. \<not> js_lt E (expiry_of x) (expiry_of r))"
proof (rule reduce_from_first_min [where S = "{r. string_expiry r}"
        and lt = "\<lambda>x y. js_lt E (expiry_of x) (expiry_of y)"])
  show "set (m # ms) \<subseteq> {r. string_expiry r}"
    using assms by (auto simp: list_all_iff)
next
  fix x y assume "x \<in> {r. string_expiry r}" "y \<in> {r. string_expiry r}"
  then show "earlier E x y = Inr (if js_lt E (expiry_of y) (expiry_of x) then y else x)"
    by (simp add: earlier_string)
next
  fix x y z
  assume "x \<in> {r. string_expiry r}" "y \<in> {r. string_expiry r}" "z \<in> {r. string_expiry r}"
  then obtain a b c where e: "expiry_of x = JStr a" "expiry_of y = JStr b" "expiry_of z = JStr c"
    using string_expiryD [of x] string_expiryD [of y] string_expiryD [of z] by auto
  show "js_lt E (expiry_of x) (expiry_of y) \<Longrightarrow> js_lt E (expiry_of y) (expiry_of z) \<Longrightarrow>
        js_lt E (expiry_of x) (expiry_of z)"
    unfolding e js_lt_str by (rule str_lt_trans)
  show "\<not> js_lt E (expiry_of x) (expiry_of y) \<Longrightarrow> \<not> js_lt E (expiry_of y) (expiry_of z) \<Longrightarrow>
        \<not> js_lt E (expiry_of x) (expiry_of z)"
    unfolding e js_lt_str by (rule str_lt_ntrans)
qed

lemma js_lt_asym_ordered:
  assumes "ordered_expiries ms" and "x \<in> set ms" and "y \<in> set ms"
    and "js_lt E (expiry_of x) (expiry_of y)"
  shows "\<not> js_lt E (expiry_of y) (expiry_of x)"
proof -
  from assms(1) consider "list_all number_expiry ms" | "list_all string_expiry ms"
    unfolding ordered_expiries_def by blast
  then show ?thesis
  proof cases
    case 1
    then have "number_expiry x" "number_expiry y" using assms(2,3) by (auto simp: list_all_iff)
    then obtain a b where e: "expiry_of x = JNum a" "expiry_of y = JNum b"
      using number_expiryD [of x] number_expiryD [of y] by auto
    show ?thesis using assms(4) unfolding e js_lt_num by (rule num_lt_asym)
  next
    case 2
    then have "string_expiry x" "string_expiry y" using assms(2,3) by (auto simp: list_all_iff)
    then obtain a b where e: "expiry_of x = JStr a" "expiry_of y = JStr b"
      using string_expiryD [of x] string_expiryD [of y] by auto
    show ?thesis using assms(4) unfolding e js_lt_str by (rule str_lt_asym)
  qed
qed

lemma reduce_js_earliest:
  assumes "ordered_expiries ms" and "ms \<noteq> []"
  shows "\<exists>pre r post. ms = pre @ r # post \<and> reduce_js (earlier E) ms = Inr r \<and>
           (\<forall>x\<in>set pre. js_lt E (expiry_of r) (expiry_of x)) \<and>
           (\<forall>x\<in>set post. \<not> js_lt E (expiry_of x) (expiry_of r))"
proof -
  from assms(2) obtain m ms' where ms: "ms = m # ms'" by (cases ms) auto
  from assms(1) consider "list_all number_expiry ms" | "list_all string_expiry ms"
    unfolding ordered_expiries_def by blast
  then show ?thesis
  proof cases
    case 1
    then show ?thesis using reduce_earlier_numbers [of m ms' E] unfolding ms by simp
  next
    case 2
    then show ?thesis using reduce_earlier_strings [of m ms' E] unfolding ms by simp
  qed
qed

lemma getUpstoxOption_array:
  "instrumentCache s = JArr xs \<Longrightarrow> filter_js (matches E a k t) xs = Inr ms \<Longrightarrow>
   fst (getUpstoxOption E a k t s) = (if ms = [] then Inr JNull else reduce_js (earlier E) ms)"
  by (simp add: getUpstoxOption_def search_def)

text \<open>
  C1. On a cache that holds an array, when the filter has run to its end and the
  matching records carry comparable expiries (all of them numbers, or all of them
  strings): if no record matches, \<open>getUpstoxOption\<close> returns null and does not throw;
  otherwise it returns a matching record \<open>r\<close> such that no matching record has an
  expiry below that of \<open>r\<close>, and every matching record that stands before \<open>r\<close> in the
  catalog has an expiry strictly above it, so \<open>r\<close> is the first of the records with
  the minimal expiry.
\<close>

theorem getUpstoxOption_earliest_expiry:
  assumes cache: "instrumentCache s = JArr xs"
    and filt: "filter_js (matches E a k t) xs = Inr ms"
    and ord: "ordered_expiries ms"
  shows "(ms = [] \<longrightarrow> fst (getUpstoxOption E a k t s) = Inr JNull) \<and>
         (ms \<noteq> [] \<longrightarrow>
            (\<exists>pre r post. ms = pre @ r # post \<and> fst (getUpstoxOption E a k t s) = Inr r \<and>
               (\<forall>x\<in>set ms. \<not> js_lt E (expiry_of x) (expiry_of r)) \<and>
               (\<forall>x\<in>set pre. js_lt E (expiry_of r) (expiry_of x))))"
proof (intro conjI impI)
  assume "ms = []"
  then show "fst (getUpstoxOption E a k t s) = Inr JNull"
    using getUpstoxOption_array [OF cache filt] by simp
next
  assume ne: "ms \<noteq> []"
  from reduce_js_earliest [OF ord ne, of E] obtain pre r post where
    dec: "ms = pre @ r # post" and res: "reduce_js (earlier E) ms = Inr r"
    and pre: "\<forall>x\<in>set pre. js_lt E (expiry_of r) (expiry_of x)"
    and post: "\<forall>x\<in>set post. \<not> js_lt E (expiry_of x) (expiry_of r)"
    by blast
  have val: "fst (getUpstoxOption E a k t s) = Inr r"
    using getUpstoxOption_array [OF cache filt] ne res by simp
  have rin: "r \<in> set ms" unfolding dec by simp
  have least: "\<forall>x\<in>set ms. \<not> js_lt E (expiry_of x) (expiry_of r)"
  proof
    fix x assume x: "x \<in> set ms"
    then consider "x \<in> set pre" | "x = r" | "x \<in> set post" unfolding dec by auto
    then show "\<not> js_lt E (expiry_of x) (expiry_of r)"
    proof cases
      case 1
      then have "js_lt E (expiry_of r) (expiry_of x)" using pre by simp
      then show ?thesis by (rule js_lt_asym_ordered [OF ord rin x])
    next
      case 2
      show ?thesis
      proof
        assume l: "js_lt E (expiry_of x) (expiry_of r)"
        then have "\<not> js_lt E (expiry_of r) (expiry_of x)" by (rule js_lt_asym_ordered [OF ord x rin])
        then show False using l 2 by simp
      qed
    next
      case 3
      then show ?thesis using post by simp
    qed
  qed
  show "\<exists>pre r post. ms = pre @ r # post \<and> fst (getUpstoxOption E a k t s) = Inr r \<and>
               (\<forall>x\<in>set ms. \<not> js_lt E (expiry_of x) (expiry_of r)) \<and>
               (\<forall>x\<in>set pre. js_lt E (expiry_of r) (expiry_of x))"
    by (rule exI [of _ pre], rule exI [of _ r], rule exI [of _ post])
       (intro conjI dec val least pre)
qed

theorem getUpstoxOption_earliest_expiry_witness:
  "fst (getUpstoxOption example_host ''nifty'' (Fin 23300) ''pe''
          \<lparr>instrumentCache = JArr [option_record ''B'' 3, option_record ''A'' 1, option_record ''C'' 1],
           console = []\<rparr>) = Inr (option_record ''A'' 1) \<and>
   (\<exists>pre r post.
      [option_record ''B'' 3, option_record ''A'' 1, option_record ''C'' 1] = pre @ r # post \<and>
      fst (getUpstoxOption example_host ''nifty'' (Fin 23300) ''pe''
          \<lparr>instrumentCache = JArr [option_record ''B'' 3, option_record ''A'' 1, option_record ''C'' 1],
           console = []\<rparr>) = Inr r \<and>
      (\<forall>x\<in>set [option_record ''B'' 3, option_record ''A'' 1, option_record ''C'' 1].
          \<not> js_lt example_host (expiry_of x) (expiry_of r)) \<and>
      (\<forall>x\<in>set pre. js_lt example_host (expiry_of r) (expiry_of x)))"
proof -
  let ?ms = "[option_record ''B'' 3, option_record ''A'' 1, option_record ''C'' 1]"
  let ?s = "\<lparr>instrumentCache = JArr ?ms, console = []\<rparr>"
  have cache: "instrumentCache ?s = JArr ?ms" by simp
  have filt: "filter_js (matches example_host ''nifty'' (Fin 23300) ''pe'') ?ms = Inr ?ms" by code_simp
  have ord: "ordered_expiries ?ms" by code_simp
  have ne: "?ms \<noteq> []" by simp
  have val: "fst (getUpstoxOption example_host ''nifty'' (Fin 23300) ''pe'' ?s)
               = Inr (option_record ''A'' 1)"
    by code_simp
  show ?thesis
    using val ne getUpstoxOption_earliest_expiry [OF cache filt ord]
    by blast
qed

subsection \<open>Not ready, and found nothing\<close>

text \<open>
  C2, as the code has it. A lookup on the cache that no refresh has filled yet and a
  lookup on a populated catalog without a matching record return the same value, null;
  the two differ only in what they print: the first prints the error line
  "Instrument cache is not populated", the second prints nothing.
\<close>

theorem getUpstoxOption_not_ready_returns_null_too:
  assumes "instrumentCache s = JNull"
    and "instrumentCache s' = JArr xs"
    and "filter_js (matches E a k t) xs = Inr []"
  shows "fst (getUpstoxOption E a k t s) = Inr JNull \<and>
         fst (getUpstoxOption E a k t s') = Inr JNull \<and>
         console (snd (getUpstoxOption E a k t s)) = console s @ [ErrNotPopulated] \<and>
         console (snd (getUpstoxOption E a k t s')) = console s'"
  using assms by (simp add: getUpstoxOption_def search_def print_def)

theorem getUpstoxOption_not_ready_returns_null_too_witness:
  "fst (getUpstoxOption example_host ''NIFTY'' (Fin 24000) ''CE'' initial) = Inr JNull \<and>
   fst (getUpstoxOption example_host ''NIFTY'' (Fin 24000) ''CE''
          \<lparr>instrumentCache = JArr [example_record ''2025-01-02''], console = []\<rparr>) = Inr JNull \<and>
   console (snd (getUpstoxOption example_host ''NIFTY'' (Fin 24000) ''CE'' initial))
     = [ErrNotPopulated] \<and>
   console (snd (getUpstoxOption example_host ''NIFTY'' (Fin 24000) ''CE''
          \<lparr>instrumentCache = JArr [example_record ''2025-01-02''], console = []\<rparr>)) = []"
proof -
  let ?s' = "\<lparr>instrumentCache = JArr [example_record ''2025-01-02''], console = []\<rparr>"
  have a: "instrumentCache initial = JNull" by (simp add: initial_def)
  have b: "instrumentCache ?s' = JArr [example_record ''2025-01-02'']" by simp
  have c: "filter_js (matches example_host ''NIFTY'' (Fin 24000) ''CE'') [example_record ''2025-01-02''] = Inr []"
    by code_simp
  have d: "console initial = []" by (simp add: initial_def)
  show ?thesis
    using getUpstoxOption_not_ready_returns_null_too [OF a b c] d by simp
qed

text \<open>
  The claim C2 as the specification states it fails: before any refresh, and on a
  populated catalog without a match, the lookup returns one and the same value.
\<close>

theorem not_ready_signal_counterexample:
  "fst (getUpstoxOption example_host ''NIFTY'' (Fin 24000) ''CE'' initial)
   = fst (getUpstoxOption example_host ''NIFTY'' (Fin 24000) ''CE''
            \<lparr>instrumentCache = JArr [example_record ''2025-01-02''], console = []\<rparr>)"
  by code_simp

subsection \<open>A failed refresh\<close>

lemma download_settle_fails:
  "detected_failure E d \<Longrightarrow>
   (\<exists>err. fst (download_settle E d s) = Inl err) \<and>
   instrumentCache (snd (download_settle E d s)) = instrumentCache s \<and>
   list_ex failure_report (console (snd (download_settle E d s)))"
  by (cases d) (auto simp: download_settle_def print_def split: sum.splits)

text \<open>
  A refresh cycle with a failure detected before the assignment rejects its promise and
  leaves \<open>instrumentCache\<close> exactly as it was, both for the whole call and for the
  handler that settles a cycle started earlier; every lookup after it returns what it
  returned before.
\<close>

lemma detected_failure_keeps_catalog:
  assumes "detected_failure E d"
  shows "(\<exists>err. fst (downloadAndPopulateCache E d s) = Inl err) \<and>
         instrumentCache (snd (downloadAndPopulateCache E d s)) = instrumentCache s \<and>
         instrumentCache (snd (download_settle E d s)) = instrumentCache s \<and>
         fst (getUpstoxOption E a k t (snd (downloadAndPopulateCache E d s)))
           = fst (getUpstoxOption E a k t s)"
proof -
  have 1: "\<exists>err. fst (downloadAndPopulateCache E d s) = Inl err"
    and 2: "instrumentCache (snd (downloadAndPopulateCache E d s)) = instrumentCache s"
    using download_settle_fails [OF assms, of "download_start s"]
    by (simp_all add: downloadAndPopulateCache_def download_start_def print_def)
  have 3: "instrumentCache (snd (download_settle E d s)) = instrumentCache s"
    using download_settle_fails [OF assms, of s] by simp
  have 4: "fst (getUpstoxOption E a k t (snd (downloadAndPopulateCache E d s)))
           = fst (getUpstoxOption E a k t s)"
    using 2 by (simp add: getUpstoxOption_def)
  show ?thesis using 1 2 3 4 by blast
qed

text \<open>
  A text that parses, but to a value without a readable \<open>length\<close> (the text
  \<^verbatim>\<open>null\<close>), is not a detected failure: line 43 stores the value in the cache before
  line 45, which prints its length, throws; the handler prints "Error parsing JSON
  data" and the cycle rejects with the cache replaced.
\<close>

lemma refresh_null_payload:
  "JSON_parse E (concat chunks) = Inr JNull \<Longrightarrow>
   \<not> detected_failure E (Ended chunks) \<and>
   download_settle E (Ended chunks) s
     = (Inl TypeError, print (ErrParsing TypeError) (s\<lparr>instrumentCache := JNull\<rparr>))"
  by (simp add: download_settle_def)

text \<open>
  C3. Not every failed refresh leaves the catalog as it was. On a populated cache, the
  cycle whose decompressed text is \<^verbatim>\<open>null\<close> fails at the parse stage (it rejects with a
  TypeError and is reported as "Error parsing JSON data"), and it has replaced the
  catalog by null: the lookup that returned a record before the cycle returns null,
  with the line "Instrument cache is not populated", after it.
\<close>

theorem null_payload_replaces_catalog:
  "downloadAndPopulateCache example_host (Ended [''nu'', ''ll''])
     \<lparr>instrumentCache = JArr [example_record ''2025-01-02''], console = []\<rparr>
     = (Inl TypeError,
        \<lparr>instrumentCache = JNull, console = [LogStartDownload, ErrParsing TypeError]\<rparr>) \<and>
   getUpstoxOption example_host ''NIFTY'' (Fin 23300) ''PE''
     \<lparr>instrumentCache = JArr [example_record ''2025-01-02''], console = []\<rparr>
     = (Inr (example_record ''2025-01-02''),
        \<lparr>instrumentCache = JArr [example_record ''2025-01-02''], console = []\<rparr>) \<and>
   getUpstoxOption example_host ''NIFTY'' (Fin 23300) ''PE''
     (snd (downloadAndPopulateCache example_host (Ended [''nu'', ''ll''])
        \<lparr>instrumentCache = JArr [example_record ''2025-01-02''], console = []\<rparr>))
     = (Inr JNull,
        \<lparr>instrumentCache = JNull,
         console = [LogStartDownload, ErrParsing TypeError, ErrNotPopulated]\<rparr>)"
proof -
  let ?s = "\<lparr>instrumentCache = JArr [example_record ''2025-01-02''], console = []\<rparr>"
  have p: "JSON_parse example_host (concat [''nu'', ''ll'']) = Inr JNull"
    by (simp add: example_host_def example_payload_def example_chunks_def)
  have d: "downloadAndPopulateCache example_host (Ended [''nu'', ''ll'']) ?s
             = (Inl TypeError,
                \<lparr>instrumentCache = JNull, console = [LogStartDownload, ErrParsing TypeError]\<rparr>)"
    using refresh_null_payload [OF p, of "download_start ?s"]
    by (simp add: downloadAndPopulateCache_def download_start_def print_def)
  have b: "getUpstoxOption example_host ''NIFTY'' (Fin 23300) ''PE'' ?s
             = (Inr (example_record ''2025-01-02''), ?s)"
    by code_simp
  show ?thesis
    unfolding d using b by (simp add: getUpstoxOption_def print_def)
qed

subsection \<open>End to end\<close>

lemma download_settle_parsed:
  "JSON_parse E (concat chunks) = Inr (JArr xs) \<Longrightarrow>
   fst (download_settle E (Ended chunks) s) = Inr () \<and>
   instrumentCache (snd (download_settle E (Ended chunks) s)) = JArr xs"
  by (simp add: download_settle_def print_def)

text \<open>
  C8. When the gunzip stream ends and \<^verbatim>\<open>JSON.parse\<close> turns the decompressed text into
  an array of exactly two records, both with asset symbol NIFTY, strike price 23300 and
  instrument type PE, the first with expiry "2025-01-02" and the second with expiry
  "2025-01-09" (whatever their other fields), the refresh succeeds and the lookup
  (NIFTY, 23300, PE) that follows returns the record with expiry "2025-01-02".
\<close>

theorem refresh_then_lookup:
  assumes parsed: "JSON_parse E (concat chunks) = Inr (JArr [JObj r1, JObj r2])"
    and r1: "scenario_record r1 ''2025-01-02''"
    and r2: "scenario_record r2 ''2025-01-09''"
  shows "fst (downloadAndPopulateCache E (Ended chunks) s) = Inr () \<and>
         fst (getUpstoxOption E ''NIFTY'' (Fin 23300) ''PE''
                (snd (downloadAndPopulateCache E (Ended chunks) s))) = Inr (JObj r1)"
proof -
  let ?s' = "snd (downloadAndPopulateCache E (Ended chunks) s)"
  have ok: "fst (downloadAndPopulateCache E (Ended chunks) s) = Inr ()"
    and cache: "instrumentCache ?s' = JArr [JObj r1, JObj r2]"
    using download_settle_parsed [OF parsed, of "download_start s"]
    by (simp_all add: downloadAndPopulateCache_def)
  have m1: "matches E ''NIFTY'' (Fin 23300) ''PE'' (JObj r1) = Inr True"
    using r1 by (simp add: matches_def scenario_record_def)
  have m2: "matches E ''NIFTY'' (Fin 23300) ''PE'' (JObj r2) = Inr True"
    using r2 by (simp add: matches_def scenario_record_def)
  have filt: "filter_js (matches E ''NIFTY'' (Fin 23300) ''PE'') [JObj r1, JObj r2]
                = Inr [JObj r1, JObj r2]"
    by (simp add: m1 m2)
  have lt: "\<not> js_lt E (JStr ''2025-01-09'') (JStr ''2025-01-02'')"
    by (simp add: js_lt_str)
  have "reduce_js (earlier E) [JObj r1, JObj r2] = Inr (JObj r1)"
    using r1 r2 lt by (simp add: earlier_def scenario_record_def)
  then have "fst (getUpstoxOption E ''NIFTY'' (Fin 23300) ''PE'' ?s') = Inr (JObj r1)"
    using getUpstoxOption_array [OF cache filt] by simp
  then show ?thesis using ok by simp
qed

theorem refresh_then_lookup_witness:
  "fst (downloadAndPopulateCache example_host (Ended example_chunks) initial) = Inr () \<and>
   fst (getUpstoxOption example_host ''NIFTY'' (Fin 23300) ''PE''
          (snd (downloadAndPopulateCache example_host (Ended example_chunks) initial)))
     = Inr (example_record ''2025-01-02'')"
proof -
  let ?kv = "\<lambda>e. [(''asset_symbol'', JStr ''NIFTY''), (''strike_price'', JNum (Fin 23300)),
                 (''instrument_type'', JStr ''PE''), (''expiry'', JStr e)]"
  have parsed: "JSON_parse example_host (concat example_chunks)
                  = Inr (JArr [JObj (?kv ''2025-01-02''), JObj (?kv ''2025-01-09'')])"
    by (simp add: example_host_def example_payload_def example_record_def)
  have r1: "scenario_record (?kv ''2025-01-02'') ''2025-01-02''"
    by (simp add: scenario_record_def own_prop_def)
  have r2: "scenario_record (?kv ''2025-01-09'') ''2025-01-09''"
    by (simp add: scenario_record_def own_prop_def)
  show ?thesis
    using refresh_then_lookup [OF parsed r1 r2, of initial]
    by (simp add: example_record_def)
qed

subsection \<open>Records with a missing string field\<close>

lemma matches_missing: "missing_string_field kvs \<Longrightarrow> matches E a k t (JObj kvs) = Inr False"
  by (auto simp: missing_string_field_def absent_def is_string_def matches_def
           split: jsval.splits)

lemma filter_js_skip:
  "p r = Inr False \<Longrightarrow> filter_js p (xs @ r # ys) = filter_js p (xs @ ys)"
  by (induction xs) (auto split: sum.splits)

lemma filter_js_holds:
  "filter_js p xs = Inr ms \<Longrightarrow> x \<in> set ms \<Longrightarrow> p x = Inr True"
proof (induction xs arbitrary: ms)
  case Nil
  then show ?case by simp
next
  case (Cons y ys)
  from Cons.prems(1) obtain b zs where py: "p y = Inr b" and zs: "filter_js p ys = Inr zs"
    and ms: "ms = (if b then y # zs else zs)"
    by (auto split: sum.splits)
  show ?case
  proof (cases "b \<and> x = y")
    case True
    then show ?thesis using py by simp
  next
    case False
    then have "x \<in> set zs" using Cons.prems(2) ms by (auto split: if_splits)
    then show ?thesis by (rule Cons.IH [OF zs])
  qed
qed

lemma earlier_cases: "earlier E x y = Inr r \<Longrightarrow> r = x \<or> r = y"
  by (auto simp: earlier_def split: sum.splits if_splits)

lemma reduce_from_earlier_mem:
  "reduce_from (earlier E) acc xs = Inr r \<Longrightarrow> r \<in> set (acc # xs)"
proof (induction xs arbitrary: acc)
  case Nil
  then show ?case by simp
next
  case (Cons x xs)
  from Cons.prems obtain acc' where st: "earlier E acc x = Inr acc'"
    and re: "reduce_from (earlier E) acc' xs = Inr r"
    by (auto split: sum.splits)
  from Cons.IH [OF re] have "r = acc' \<or> r \<in> set xs" by simp
  then show ?case using earlier_cases [OF st] by auto
qed

lemma search_result:
  assumes "search E (JArr xs) a k t = Inr r"
  shows "r = JNull \<or> matches E a k t r = Inr True"
proof -
  from assms obtain ms where filt: "filter_js (matches E a k t) xs = Inr ms"
    and res: "(if length ms = 0 then Inr JNull else reduce_js (earlier E) ms) = Inr r"
    by (auto simp: search_def split: sum.splits)
  show ?thesis
  proof (cases ms)
    case Nil
    then show ?thesis using res by simp
  next
    case (Cons m ms')
    then have "reduce_from (earlier E) m ms' = Inr r" using res by simp
    then have "r \<in> set ms" using reduce_from_earlier_mem Cons by metis
    then show ?thesis using filter_js_holds [OF filt] by simp
  qed
qed

text \<open>
  C9. A record whose asset symbol is absent (undefined or null), or whose asset symbol
  is a string and whose instrument type is absent, fails the filter without an
  exception; the lookup on a catalog that holds it returns, or throws, exactly what it
  does on the catalog without it, and never returns that record.
\<close>

theorem missing_string_field_is_skipped:
  assumes "missing_string_field kvs"
  shows "matches E a k t (JObj kvs) = Inr False \<and>
         fst (getUpstoxOption E a k t (s\<lparr>instrumentCache := JArr (xs @ JObj kvs # ys)\<rparr>))
           = fst (getUpstoxOption E a k t (s\<lparr>instrumentCache := JArr (xs @ ys)\<rparr>)) \<and>
         fst (getUpstoxOption E a k t (s\<lparr>instrumentCache := JArr (xs @ JObj kvs # ys)\<rparr>))
           \<noteq> Inr (JObj kvs)"
proof -
  have m: "matches E a k t (JObj kvs) = Inr False"
    using assms by (rule matches_missing)
  have same: "search E (JArr (xs @ JObj kvs # ys)) a k t = search E (JArr (xs @ ys)) a k t"
    using filter_js_skip [of "matches E a k t" "JObj kvs" xs ys, OF m]
    by (simp add: search_def)
  have never: "search E (JArr (xs @ JObj kvs # ys)) a k t \<noteq> Inr (JObj kvs)"
  proof
    assume "search E (JArr (xs @ JObj kvs # ys)) a k t = Inr (JObj kvs)"
    from search_result [OF this] show False using m by simp
  qed
  show ?thesis using m same never by (simp add: getUpstoxOption_def)
qed

theorem missing_string_field_is_skipped_witness:
  "matches example_host ''NIFTY'' (Fin 23300) ''PE''
     (JObj [(''strike_price'', JNum (Fin 23300)), (''instrument_type'', JNull)]) = Inr False \<and>
   fst (getUpstoxOption example_host ''NIFTY'' (Fin 23300) ''PE''
          \<lparr>instrumentCache =
             JArr [JObj [(''strike_price'', JNum (Fin 23300)), (''instrument_type'', JNull)],
                   example_record ''2025-01-02''],
           console = []\<rparr>) = Inr (example_record ''2025-01-02'')"
proof -
  let ?kvs = "[(''strike_price'', JNum (Fin 23300)), (''instrument_type'', JNull)]"
  have h: "missing_string_field ?kvs" by code_simp
  have v: "fst (getUpstoxOption example_host ''NIFTY'' (Fin 23300) ''PE''
                 (\<lparr>instrumentCache = JNull, console = []\<rparr>
                    \<lparr>instrumentCache := JArr ([] @ [example_record ''2025-01-02''])\<rparr>))
             = Inr (example_record ''2025-01-02'')"
    by code_simp
  show ?thesis
    using v missing_string_field_is_skipped
      [OF h, where a = "''NIFTY''" and k = "Fin 23300" and t = "''PE''" and E = example_host
         and s = "\<lparr>instrumentCache = JNull, console = []\<rparr>" and xs = "[]"
         and ys = "[example_record ''2025-01-02'']"]
    by simp
qed

subsection \<open>Refresh errors stay in the refresh\<close>

lemma main_fulfils: "fst (main E d s) = Inr ()"
  by (simp add: main_def split: prod.splits sum.splits)

lemma list_ex_print:
  "list_ex P (console s) \<Longrightarrow> list_ex P (console (print l s))"
  by (simp add: print_def)

lemma script_after_failure:
  assumes "detected_failure E d"
  shows "\<exists>s'. script E d = Inr s' \<and> instrumentCache s' = JNull \<and>
               list_ex failure_report (console s')"
proof -
  let ?s0 = "print LogCacheEmpty initial"
  obtain r s1 where ds: "downloadAndPopulateCache E d ?s0 = (r, s1)"
    by (cases "downloadAndPopulateCache E d ?s0") blast
  have st: "download_settle E d (download_start ?s0) = (r, s1)"
    using ds by (simp add: downloadAndPopulateCache_def)
  from download_settle_fails [OF assms, of "download_start ?s0"] st
  obtain err where r: "r = Inl err"
    and c1: "instrumentCache s1 = JNull"
    and l1: "list_ex failure_report (console s1)"
    by (auto simp: download_start_def print_def initial_def)
  let ?s2 = "main_catch err s1"
  have m: "main E d initial = (Inr (), ?s2)"
    using ds r by (simp add: main_def initial_def)
  have c2: "instrumentCache ?s2 = JNull"
    using c1 by (simp add: main_catch_def print_def)
  have l2: "list_ex failure_report (console ?s2)"
    using l1 by (simp add: main_catch_def print_def)
  let ?s3 = "print LogScheduled (print LogInitialized (print (LogValue JNull) (print ErrNotPopulated ?s2)))"
  have "script E d = Inr ?s3"
    using m c2 by (simp add: script_def getUpstoxOption_def)
  moreover have "instrumentCache ?s3 = JNull" using c2 by (simp add: print_def)
  moreover have "list_ex failure_report (console ?s3)" using l2 by (simp add: print_def)
  ultimately show ?thesis by blast
qed

lemma cronSettled_after_failure:
  assumes "detected_failure E d"
  shows "fst (cronSettled E d p) = Inr () \<and>
         instrumentCache (snd (cronSettled E d p)) = instrumentCache p \<and>
         list_ex failure_report (console (snd (cronSettled E d p))) \<and>
         (\<exists>err. ErrDailyFailed err \<in> set (console (snd (cronSettled E d p))))"
proof -
  obtain r p1 where st: "download_settle E d p = (r, p1)"
    by (cases "download_settle E d p") blast
  from download_settle_fails [OF assms, of p] st
  obtain err where r: "r = Inl err"
    and c1: "instrumentCache p1 = instrumentCache p"
    and l1: "list_ex failure_report (console p1)"
    by auto
  have cs: "cronSettled E d p
              = (Inr (), (print (ErrDailyFailed err) p1)\<lparr>inflight := inflight p - 1\<rparr>)"
    using st r by (simp add: cronSettled_def)
  show ?thesis using c1 l1 unfolding cs by (auto simp: print_def)
qed

text \<open>
  C6, as the code has it. A refresh failure that is detected before the assignment (the
  request rejected, an error of the response stream or of the gunzip stream,
  \<^verbatim>\<open>JSON.parse\<close> throwing) is reported and goes no further. At startup the script
  neither stops on an exception nor fills the cache: it reaches the state in which the
  cron job is scheduled, with the failure on the console; the promise of \<open>main\<close> is
  always fulfilled. For a cycle started by the cron job, the promise chain with its
  \<^verbatim>\<open>.catch\<close> is fulfilled, the failure is on the console (the report of the download
  and the line "Daily cache update failed"), the cache is as it was, and every lookup
  returns what it returned before. A text that parses is outside this statement: the
  refresh does not look at the shape of the value it stores.
\<close>

theorem refresh_errors_stay_local:
  assumes "detected_failure E d"
  shows "(\<exists>s'. script E d = Inr s' \<and> instrumentCache s' = JNull \<and>
               list_ex failure_report (console s')) \<and>
         fst (main E d s) = Inr () \<and>
         fst (cronSettled E d p) = Inr () \<and>
         instrumentCache (snd (cronSettled E d p)) = instrumentCache p \<and>
         list_ex failure_report (console (snd (cronSettled E d p))) \<and>
         (\<exists>err. ErrDailyFailed err \<in> set (console (snd (cronSettled E d p)))) \<and>
         fst (getUpstoxOption E a k t (snd (cronSettled E d p))) = fst (getUpstoxOption E a k t p)"
proof -
  note c = cronSettled_after_failure [OF assms, of p]
  have "fst (getUpstoxOption E a k t (snd (cronSettled E d p))) = fst (getUpstoxOption E a k t p)"
    using c by (simp add: getUpstoxOption_def)
  then show ?thesis
    using script_after_failure [OF assms] main_fulfils [of E d s] c by blast
qed

theorem refresh_errors_stay_local_witness:
  "script example_host (GunzipError ZlibError)
     = Inr \<lparr>instrumentCache = JNull,
            console = [LogCacheEmpty, LogStartDownload, ErrDecompress ZlibError,
                       ErrUnexpected ZlibError, ErrNotPopulated, LogValue JNull,
                       LogInitialized, LogScheduled]\<rparr> \<and>
   cronSettled example_host (GunzipError ZlibError)
     \<lparr>instrumentCache = JArr [example_record ''2025-01-02''],
      console = [LogCron, LogStartDownload], inflight = 1\<rparr>
     = (Inr (),
        \<lparr>instrumentCache = JArr [example_record ''2025-01-02''],
         console = [LogCron, LogStartDownload, ErrDecompress ZlibError, ErrDailyFailed ZlibError],
         inflight = 0\<rparr>) \<and>
   fst (getUpstoxOption example_host ''NIFTY'' (Fin 23300) ''PE''
          (snd (cronSettled example_host (GunzipError ZlibError)
             \<lparr>instrumentCache = JArr [example_record ''2025-01-02''],
              console = [LogCron, LogStartDownload], inflight = 1\<rparr>)))
     = Inr (example_record ''2025-01-02'')"
proof -
  let ?p = "\<lparr>instrumentCache = JArr [example_record ''2025-01-02''],
             console = [LogCron, LogStartDownload], inflight = 1\<rparr>"
  have f: "detected_failure example_host (GunzipError ZlibError)" by simp
  have s: "script example_host (GunzipError ZlibError)
     = Inr \<lparr>instrumentCache = JNull,
            console = [LogCacheEmpty, LogStartDownload, ErrDecompress ZlibError,
                       ErrUnexpected ZlibError, ErrNotPopulated, LogValue JNull,
                       LogInitialized, LogScheduled]\<rparr>"
    by (simp add: script_def main_def main_catch_def initial_def downloadAndPopulateCache_def
          download_start_def download_settle_def getUpstoxOption_def print_def)
  have c: "cronSettled example_host (GunzipError ZlibError) ?p
     = (Inr (),
        \<lparr>instrumentCache = JArr [example_record ''2025-01-02''],
         console = [LogCron, LogStartDownload, ErrDecompress ZlibError, ErrDailyFailed ZlibError],
         inflight = 0\<rparr>)"
    by (simp add: cronSettled_def download_settle_def print_def)
  have v: "fst (getUpstoxOption example_host ''NIFTY'' (Fin 23300) ''PE'' ?p)
             = Inr (example_record ''2025-01-02'')"
    by code_simp
  show ?thesis
    using s c v refresh_errors_stay_local
      [OF f, where p = ?p and a = "''NIFTY''" and k = "Fin 23300" and t = "''PE''"
         and s = initial]
    by simp
qed

text \<open>
  The claim C6 as the specification states it fails for a malformed catalog that is
  valid JSON: the refresh does not check that the parsed value is an array of records.
  With the text \<^verbatim>\<open>{}\<close> the startup refresh resolves, the lookup inside \<open>main\<close> throws
  a TypeError that \<open>main\<close> catches, and the lookup of line 151, which no \<^verbatim>\<open>try\<close>
  encloses, throws the same TypeError and ends the script; after a cron-triggered
  refresh with that text the lookup throws to its caller.
\<close>

theorem malformed_catalog_counterexample:
  "script example_host (Ended [''{}'']) = Inl TypeError \<and>
   fst (getUpstoxOption example_host ''NIFTY'' (Fin 23300) ''PE''
          (snd (cronSettled example_host (Ended [''{}''])
             \<lparr>instrumentCache = JArr [example_record ''2025-01-02''],
              console = [LogCron, LogStartDownload], inflight = 1\<rparr>)))
     = Inl TypeError"
  by code_simp

subsection \<open>Cycles in flight\<close>

text \<open>
  C5, as the code has it. The callback of the cron job keeps no record of a running
  cycle and has no guard: every trigger prints its two lines and sends a new request,
  so the number of cycles in flight grows by one with every trigger, whatever it was;
  the trigger itself leaves the cache alone. Every cycle whose text parses stores the
  parsed value in the cache when it settles, so with several cycles in flight the cache
  holds the value of the cycle that settled last.
\<close>

theorem cron_trigger_always_starts_a_cycle:
  "inflight (cronCallback p) = Suc (inflight p) \<and>
   console (cronCallback p) = console p @ [LogCron, LogStartDownload] \<and>
   instrumentCache (cronCallback p) = instrumentCache p \<and>
   (JSON_parse E (concat chunks) = Inr v \<longrightarrow>
      instrumentCache (snd (cronSettled E (Ended chunks) p)) = v)"
  by (auto simp: cronCallback_def cronSettled_def download_start_def download_settle_def
        print_def Let_def split: sum.splits)

theorem cron_trigger_always_starts_a_cycle_witness:
  "inflight (cronCallback \<lparr>instrumentCache = JArr [], console = [LogCron, LogStartDownload],
                           inflight = 1\<rparr>) = 2 \<and>
   instrumentCache (snd (cronSettled example_host (Ended example_chunks)
      \<lparr>instrumentCache = JArr [], console = [LogCron, LogStartDownload], inflight = 1\<rparr>))
     = JArr [example_record ''2025-01-02'', example_record ''2025-01-09'']"
proof -
  have parsed: "JSON_parse example_host (concat example_chunks)
                  = Inr (JArr [example_record ''2025-01-02'', example_record ''2025-01-09''])"
    by (simp add: example_host_def example_payload_def)
  show ?thesis
    using parsed cron_trigger_always_starts_a_cycle
      [where p = "\<lparr>instrumentCache = JArr [], console = [LogCron, LogStartDownload],
                    inflight = 1\<rparr>"
         and E = example_host and chunks = example_chunks]
    by simp
qed

text \<open>
  The claim C5 as the specification states it fails: a trigger that fires while one
  cycle is in flight is not a no-op, and two cycles are in flight after it.
\<close>

theorem single_refresh_in_flight_counterexample:
  "inflight (cronCallback \<lparr>instrumentCache = JArr [], console = [LogCron, LogStartDownload],
                           inflight = 1\<rparr>) = 2 \<and>
   cronCallback \<lparr>instrumentCache = JArr [], console = [LogCron, LogStartDownload], inflight = 1\<rparr>
     \<noteq> \<lparr>instrumentCache = JArr [], console = [LogCron, LogStartDownload], inflight = 1\<rparr>"
  by (simp add: cronCallback_def download_start_def print_def)

section \<open>Properties of the positions request\<close>

lemma getTodaysPnL_fulfils: "\<exists>v. fst (getTodaysPnL E req) = Inr v"
  by (cases "getTodaysPnL_try E req") (simp_all add: getTodaysPnL_def)

text \<open>
  C10. \<open>getTodaysPnL\<close> returns the number 0 when the request fails (the \<^verbatim>\<open>catch\<close> block
  prints the error and returns 0) and when the response holds an empty list of
  positions, so the two cannot be told apart by the value returned; and its promise is
  never rejected, whatever the request settles with.
\<close>

theorem getTodaysPnL_zero_on_failure_and_on_no_positions:
  "getTodaysPnL E (Inl err) = (Inr (JNum (Fin 0)), [ErrFetchingPositions err]) \<and>
   (get_prop response ''data'' = Inr body \<and> get_prop body ''data'' = Inr (JArr []) \<longrightarrow>
      getTodaysPnL E (Inr response) = (Inr (JNum (Fin 0)), [])) \<and>
   (\<exists>v. fst (getTodaysPnL E req) = Inr v)"
proof (intro conjI impI)
  show "getTodaysPnL E (Inl err) = (Inr (JNum (Fin 0)), [ErrFetchingPositions err])"
    by (simp add: getTodaysPnL_def getTodaysPnL_try_def)
next
  assume h: "get_prop response ''data'' = Inr body \<and> get_prop body ''data'' = Inr (JArr [])"
  then have "body \<noteq> JUndefined" "body \<noteq> JNull" by auto
  then show "getTodaysPnL E (Inr response) = (Inr (JNum (Fin 0)), [])"
    using h by (simp add: getTodaysPnL_def getTodaysPnL_try_def)
next
  show "\<exists>v. fst (getTodaysPnL E req) = Inr v" by (rule getTodaysPnL_fulfils)
qed

theorem getTodaysPnL_zero_on_failure_and_on_no_positions_witness:
  "fst (getTodaysPnL example_host (Inl AxiosError)) = Inr (JNum (Fin 0)) \<and>
   fst (getTodaysPnL example_host
          (Inr (JObj [(''status'', JNum (Fin 200)),
                      (''data'', JObj [(''status'', JStr ''success''), (''data'', JArr [])])])))
     = Inr (JNum (Fin 0)) \<and>
   fst (getTodaysPnL example_host
          (Inr (JObj [(''data'', JObj [(''data'', JArr [JNull])])])))
     = Inr (JNum (Fin 0))"
proof -
  let ?body = "JObj [(''status'', JStr ''success''), (''data'', JArr [])]"
  let ?response = "JObj [(''status'', JNum (Fin 200)), (''data'', ?body)]"
  have h: "get_prop ?response ''data'' = Inr ?body \<and> get_prop ?body ''data'' = Inr (JArr [])"
    by (simp add: own_prop_def)
  have t: "fst (getTodaysPnL example_host
          (Inr (JObj [(''data'', JObj [(''data'', JArr [JNull])])]))) = Inr (JNum (Fin 0))"
    by code_simp
  show ?thesis
    using h t getTodaysPnL_zero_on_failure_and_on_no_positions
      [where E = example_host and err = AxiosError and response = ?response and body = ?body]
    by simp
qed

end
